theory Spec2Isabelle
  imports Complex_Main "HOL-Library.AList" "HOL-Library.Word"
begin

section \<open>Python values\<close>

text \<open>
  The values \<^verbatim>\<open>neighbor_node.py\<close> handles are the ones \<^verbatim>\<open>json.loads\<close> builds
  (None, booleans, integers, floats, strings, lists, dictionaries), plus tuples, which the
  position checks of the source accept as well.

  A Python float is an IEEE double. A finite double is represented by the real number it
  denotes; the three special values are constructors of their own, because the source
  compares against \<^verbatim>\<open>float('inf')\<close> and \<^verbatim>\<open>json.loads\<close> yields them (for
  \<^verbatim>\<open>Infinity\<close>, \<^verbatim>\<open>NaN\<close> and for literals such as \<^verbatim>\<open>1e400\<close>).
  Rounding of finite results to the nearest double is not modelled: a finite result is
  the exact real. Overflow is modelled, at the bound where a double rounds to infinity.

  A Python string is represented by its UTF-8 bytes (a \<^typ>\<open>string\<close>), which identifies
  strings exactly. A dictionary is the list of its items in insertion order; looking a
  key up reads the first item with that key.
\<close>

datatype pyfloat = Fin real | PosInf | NegInf | NaN

datatype pyval =
    PNone
  | PBool bool
  | PInt int
  | PFloat pyfloat
  | PStr string
  | PList "pyval list"
  | PTuple "pyval list"
  | PDict "(string \<times> pyval) list"

text \<open>The exceptions that the code paths of the source can raise.\<close>

datatype py_exc =
    ValueError
  | KeyError
  | TypeError
  | OverflowError
  | UnicodeDecodeError
  | JSONDecodeError
  | RecursionError

text \<open>\<^verbatim>\<open>isinstance(v, (int, float))\<close>, \<^verbatim>\<open>isinstance(v, int)\<close> and
  \<^verbatim>\<open>isinstance(v, str)\<close>. In Python \<^verbatim>\<open>bool\<close> is a subclass of \<^verbatim>\<open>int\<close>, so
  the first two hold of a boolean.\<close>

fun isinstance_int_float :: "pyval \<Rightarrow> bool" where
  "isinstance_int_float (PBool b) = True"
| "isinstance_int_float (PInt n) = True"
| "isinstance_int_float (PFloat f) = True"
| "isinstance_int_float v = False"

fun isinstance_int :: "pyval \<Rightarrow> bool" where
  "isinstance_int (PBool b) = True"
| "isinstance_int (PInt n) = True"
| "isinstance_int v = False"

fun isinstance_str :: "pyval \<Rightarrow> bool" where
  "isinstance_str (PStr s) = True"
| "isinstance_str v = False"

text \<open>\<^verbatim>\<open>isinstance(v, (list, tuple))\<close>, giving the elements.\<close>

fun list_or_tuple :: "pyval \<Rightarrow> pyval list option" where
  "list_or_tuple (PList xs) = Some xs"
| "list_or_tuple (PTuple xs) = Some xs"
| "list_or_tuple v = None"

text \<open>\<^verbatim>\<open>data[key]\<close> for a string key: KeyError on a dictionary without the key,
  TypeError on every other value (a list or a string wants an integer index, the rest
  are not subscriptable).\<close>

fun getitem :: "pyval \<Rightarrow> string \<Rightarrow> py_exc + pyval" where
  "getitem (PDict d) k = (case map_of d k of None \<Rightarrow> Inl KeyError | Some v \<Rightarrow> Inr v)"
| "getitem v k = Inl TypeError"

section \<open>Float arithmetic\<close>

text \<open>A real of magnitude \<open>2^1024 - 2^970\<close> or more rounds to an infinity.\<close>

definition DBL_OVF :: real where
  "DBL_OVF = 2 ^ 1024 - 2 ^ 970"

text \<open>\<^verbatim>\<open>a + b\<close> on floats: overflow gives an infinity, silently.\<close>

fun float_add :: "pyfloat \<Rightarrow> pyfloat \<Rightarrow> pyfloat" where
  "float_add (Fin a) (Fin b) =
     (if DBL_OVF \<le> a + b then PosInf else if a + b \<le> - DBL_OVF then NegInf else Fin (a + b))"
| "float_add NaN y = NaN"
| "float_add x NaN = NaN"
| "float_add PosInf NegInf = NaN"
| "float_add NegInf PosInf = NaN"
| "float_add PosInf y = PosInf"
| "float_add NegInf y = NegInf"
| "float_add (Fin a) y = y"

text \<open>\<^verbatim>\<open>x ** 2\<close> on a float: OverflowError when a finite operand overflows.\<close>

fun float_pow2 :: "pyfloat \<Rightarrow> py_exc + pyfloat" where
  "float_pow2 (Fin a) = (if DBL_OVF \<le> a * a then Inl OverflowError else Inr (Fin (a * a)))"
| "float_pow2 PosInf = Inr PosInf"
| "float_pow2 NegInf = Inr PosInf"
| "float_pow2 NaN = Inr NaN"

text \<open>The conversion of an integer to a float: OverflowError when it is too large.\<close>

definition int_to_float :: "int \<Rightarrow> py_exc + pyfloat" where
  "int_to_float n =
     (if DBL_OVF \<le> \<bar>real_of_int n\<bar> then Inl OverflowError else Inr (Fin (real_of_int n)))"

text \<open>\<^verbatim>\<open>a < b\<close> on floats; every comparison with NaN is false.\<close>

fun float_lt :: "pyfloat \<Rightarrow> pyfloat \<Rightarrow> bool" where
  "float_lt (Fin a) (Fin b) = (a < b)"
| "float_lt NaN y = False"
| "float_lt x NaN = False"
| "float_lt x NegInf = False"
| "float_lt PosInf y = False"
| "float_lt NegInf y = True"
| "float_lt (Fin a) PosInf = True"

text \<open>The numbers that arithmetic on validated coordinates yields: an exact integer or
  a float.\<close>

datatype pynum = NInt int | NFloat pyfloat

text \<open>\<^verbatim>\<open>v ** 2\<close>: exact on an integer (a boolean counts as 0 or 1 and gives an
  integer), \<^const>\<open>float_pow2\<close> on a float, TypeError on anything else.\<close>

fun py_pow2 :: "pyval \<Rightarrow> py_exc + pynum" where
  "py_pow2 (PBool b) = Inr (NInt (if b then 1 else 0))"
| "py_pow2 (PInt n) = Inr (NInt (n * n))"
| "py_pow2 (PFloat f) = (case float_pow2 f of Inl e \<Rightarrow> Inl e | Inr r \<Rightarrow> Inr (NFloat r))"
| "py_pow2 v = Inl TypeError"

text \<open>\<^verbatim>\<open>a + b\<close>: exact on two integers; an integer next to a float is converted
  first.\<close>

fun py_add :: "pynum \<Rightarrow> pynum \<Rightarrow> py_exc + pynum" where
  "py_add (NInt a) (NInt b) = Inr (NInt (a + b))"
| "py_add (NFloat a) (NFloat b) = Inr (NFloat (float_add a b))"
| "py_add (NInt a) (NFloat b) =
     (case int_to_float a of Inl e \<Rightarrow> Inl e | Inr a' \<Rightarrow> Inr (NFloat (float_add a' b)))"
| "py_add (NFloat a) (NInt b) =
     (case int_to_float b of Inl e \<Rightarrow> Inl e | Inr b' \<Rightarrow> Inr (NFloat (float_add a b')))"

text \<open>\<^verbatim>\<open>math.sqrt\<close> on a float: ValueError below zero, the special values pass
  through.\<close>

fun float_sqrt :: "pyfloat \<Rightarrow> py_exc + pyfloat" where
  "float_sqrt (Fin a) = (if a < 0 then Inl ValueError else Inr (Fin (sqrt a)))"
| "float_sqrt PosInf = Inr PosInf"
| "float_sqrt NegInf = Inl ValueError"
| "float_sqrt NaN = Inr NaN"

fun math_sqrt :: "pynum \<Rightarrow> py_exc + pyfloat" where
  "math_sqrt (NInt n) = (case int_to_float n of Inl e \<Rightarrow> Inl e | Inr f \<Rightarrow> float_sqrt f)"
| "math_sqrt (NFloat f) = float_sqrt f"

section \<open>The selector\<close>

text \<open>
  \<^verbatim>\<open>euclidean_dist_to_origin(pos)\<close>: ValueError unless \<open>pos\<close> is a list or tuple of
  length 2 whose elements all pass \<^verbatim>\<open>isinstance(x, (int, float))\<close>; then
  \<^verbatim>\<open>math.sqrt(pos[0]**2 + pos[1]**2)\<close>.
\<close>

definition euclidean_dist_to_origin :: "pyval \<Rightarrow> py_exc + pyfloat" where
  "euclidean_dist_to_origin pos =
     (case list_or_tuple pos of
        None \<Rightarrow> Inl ValueError
      | Some xs \<Rightarrow>
          if length xs \<noteq> 2 then Inl ValueError
          else if \<not> list_all isinstance_int_float xs then Inl ValueError
          else (case py_pow2 (xs ! 0) of
                  Inl e \<Rightarrow> Inl e
                | Inr a \<Rightarrow>
                    (case py_pow2 (xs ! 1) of
                       Inl e \<Rightarrow> Inl e
                     | Inr b \<Rightarrow>
                         (case py_add a b of
                            Inl e \<Rightarrow> Inl e
                          | Inr s \<Rightarrow> math_sqrt s))))"

text \<open>The distance of one table entry, \<^verbatim>\<open>euclidean_dist_to_origin(data["pos"])\<close>.\<close>

definition entry_dist :: "pyval \<Rightarrow> py_exc + pyfloat" where
  "entry_dist data =
     (case getitem data ''pos'' of Inl e \<Rightarrow> Inl e | Inr pos \<Rightarrow> euclidean_dist_to_origin pos)"

text \<open>The handler \<^verbatim>\<open>except (ValueError, KeyError, TypeError)\<close> of the loop. It
  catches the subclasses of the three as well: UnicodeDecodeError and
  \<^verbatim>\<open>json.JSONDecodeError\<close> are ValueErrors. OverflowError (an ArithmeticError) and
  RecursionError (a RuntimeError) are not caught.\<close>

fun caught :: "py_exc \<Rightarrow> bool" where
  "caught ValueError = True"
| "caught KeyError = True"
| "caught TypeError = True"
| "caught UnicodeDecodeError = True"
| "caught JSONDecodeError = True"
| "caught OverflowError = False"
| "caught RecursionError = False"

text \<open>
  The loop of \<^verbatim>\<open>nearest_neighbor\<close> over the items of the table, with its two
  variables \<open>nearest_id\<close> and \<open>min_dist\<close>. An exception the handler does not catch
  leaves the loop and the function.
\<close>

fun nearest_loop ::
  "(string \<times> pyval) list \<Rightarrow> string option \<Rightarrow> pyfloat \<Rightarrow> py_exc + (string option \<times> pyfloat)"
where
  "nearest_loop [] nearest_id min_dist = Inr (nearest_id, min_dist)"
| "nearest_loop ((neighbor_id, data) # rest) nearest_id min_dist =
     (case entry_dist data of
        Inl e \<Rightarrow> if caught e then nearest_loop rest nearest_id min_dist else Inl e
      | Inr d \<Rightarrow>
          if float_lt d min_dist then nearest_loop rest (Some neighbor_id) d
          else nearest_loop rest nearest_id min_dist)"

text \<open>\<^verbatim>\<open>nearest_neighbor(neighbors)\<close>: \<open>Inr None\<close> is the result \<^verbatim>\<open>None\<close>,
  \<open>Inl e\<close> an exception that reaches the caller.\<close>

definition nearest_neighbor :: "(string \<times> pyval) list \<Rightarrow> py_exc + (string \<times> pyfloat) option" where
  "nearest_neighbor neighbors =
     (if neighbors = [] then Inr None
      else (case nearest_loop neighbors None PosInf of
              Inl e \<Rightarrow> Inl e
            | Inr (nearest_id, min_dist) \<Rightarrow>
                (case nearest_id of
                   None \<Rightarrow> Inr None
                 | Some i \<Rightarrow> Inr (Some (i, min_dist)))))"

section \<open>The receiver\<close>

text \<open>
  \<^verbatim>\<open>data.decode("utf-8")\<close>: the strict decoder accepts exactly the well-formed UTF-8
  byte sequences (no overlong forms, no surrogates, nothing above U+10FFFF) and raises
  UnicodeDecodeError on every other input. Since a string is represented by its UTF-8
  bytes, the decoded string has the bytes of the datagram.
\<close>

definition in_range :: "8 word \<Rightarrow> 8 word \<Rightarrow> 8 word \<Rightarrow> bool" where
  "in_range b lo hi = (lo \<le> b \<and> b \<le> hi)"

fun utf8_valid :: "8 word list \<Rightarrow> bool" where
  "utf8_valid [] = True"
| "utf8_valid (b # bs) =
     (if b \<le> 0x7F then utf8_valid bs
      else if in_range b 0xC2 0xDF then
        (case bs of
           b1 # r \<Rightarrow> in_range b1 0x80 0xBF \<and> utf8_valid r
         | _ \<Rightarrow> False)
      else if in_range b 0xE0 0xEF then
        (case bs of
           b1 # b2 # r \<Rightarrow>
             in_range b1 (if b = 0xE0 then 0xA0 else 0x80) (if b = 0xED then 0x9F else 0xBF) \<and>
             in_range b2 0x80 0xBF \<and> utf8_valid r
         | _ \<Rightarrow> False)
      else if in_range b 0xF0 0xF4 then
        (case bs of
           b1 # b2 # b3 # r \<Rightarrow>
             in_range b1 (if b = 0xF0 then 0x90 else 0x80) (if b = 0xF4 then 0x8F else 0xBF) \<and>
             in_range b2 0x80 0xBF \<and> in_range b3 0x80 0xBF \<and> utf8_valid r
         | _ \<Rightarrow> False)
      else False)"

definition decode_utf8 :: "8 word list \<Rightarrow> py_exc + string" where
  "decode_utf8 bs = (if utf8_valid bs then Inr (map (\<lambda>b. char_of (unat b)) bs) else Inl UnicodeDecodeError)"

text \<open>
  The state of the loop of \<^verbatim>\<open>main\<close>: the dictionary \<open>neighbors\<close> and \<open>first_ts\<close>.
\<close>

record state =
  neighbors :: "(string \<times> pyval) list"
  first_ts :: "int option"

definition init_state :: state where
  "init_state = \<lparr>neighbors = [], first_ts = None\<rparr>"

definition COLLECT_WINDOW_MS :: int where
  "COLLECT_WINDOW_MS = 1000"

definition required_keys :: "string list" where
  "required_keys = [''id'', ''pos'', ''speed'', ''ts'']"

text \<open>
  The validation block of \<^verbatim>\<open>main\<close> (lines 113 to 133) on a decoded message: \<open>None\<close>
  is one of its \<^verbatim>\<open>continue\<close> statements, \<open>Some (key, record)\<close> the key and the value
  that the assignment \<^verbatim>\<open>neighbors[msg["id"]] = {...}\<close> (lines 137 to 141) then stores.
\<close>

definition validate :: "pyval \<Rightarrow> (string \<times> pyval) option" where
  "validate msg =
     (case msg of
        PDict m \<Rightarrow>
          if \<not> list_all (\<lambda>k. map_of m k \<noteq> None) required_keys then None
          else
            (case (map_of m ''id'', map_of m ''pos'', map_of m ''speed'', map_of m ''ts'') of
               (Some (PStr key), Some pos, Some speed, Some t) \<Rightarrow>
                 (case list_or_tuple pos of
                    None \<Rightarrow> None
                  | Some xs \<Rightarrow>
                      if length xs \<noteq> 2 then None
                      else if \<not> list_all isinstance_int_float xs then None
                      else if \<not> isinstance_int_float speed then None
                      else if \<not> isinstance_int t then None
                      else Some (key, PDict [(''pos'', pos), (''speed'', speed), (''last_ts'', t)]))
             | _ \<Rightarrow> None)
      | _ \<Rightarrow> None)"

text \<open>
  One receive attempt: \<^verbatim>\<open>recvfrom\<close> either raises \<^verbatim>\<open>socket.timeout\<close> or returns the
  bytes of a datagram. The integer of a datagram is the value \<^verbatim>\<open>now_ms()\<close> returns
  in that iteration, read only after a beacon has been stored.
\<close>

datatype event = Timeout | Datagram "8 word list" int

text \<open>How one iteration of \<^verbatim>\<open>while True\<close> ends: with \<^verbatim>\<open>continue\<close> (or by
  reaching the end of the body), with \<^verbatim>\<open>break\<close>, or with an exception that no
  handler of the loop catches, which ends \<^verbatim>\<open>main\<close> and the process.\<close>

datatype step = Continue state | Break state | Raise py_exc

text \<open>Storage and timer logic (lines 137 to 150) for a validated beacon.\<close>

definition store :: "state \<Rightarrow> string \<Rightarrow> pyval \<Rightarrow> int \<Rightarrow> step" where
  "store st key rec now =
     (let nbrs = AList.update key rec (neighbors st);
          first = (case first_ts st of None \<Rightarrow> now | Some t \<Rightarrow> t);
          st' = \<lparr>neighbors = nbrs, first_ts = Some first\<rparr>
      in if COLLECT_WINDOW_MS \<le> now - first then Break st' else Continue st')"

text \<open>
  The body of the loop (lines 96 to 150). The parser \<^verbatim>\<open>json.loads\<close> is the parameter
  \<open>loads\<close>: it returns a value or raises. \<open>decode\<close> is line 106,
  \<^verbatim>\<open>json.loads(data.decode("utf-8"))\<close>; of what it raises, only
  \<^verbatim>\<open>json.JSONDecodeError\<close> is caught (line 107).
\<close>

definition decode :: "(string \<Rightarrow> py_exc + pyval) \<Rightarrow> 8 word list \<Rightarrow> py_exc + pyval" where
  "decode loads data =
     (case decode_utf8 data of Inl e \<Rightarrow> Inl e | Inr txt \<Rightarrow> loads txt)"

definition loop_body :: "(string \<Rightarrow> py_exc + pyval) \<Rightarrow> state \<Rightarrow> event \<Rightarrow> step" where
  "loop_body loads st ev =
     (case ev of
        Timeout \<Rightarrow> Break st
      | Datagram data now \<Rightarrow>
          (case decode loads data of
             Inl e \<Rightarrow> if e = JSONDecodeError then Continue st else Raise e
           | Inr msg \<Rightarrow>
               (case validate msg of
                  None \<Rightarrow> Continue st
                | Some (key, rec) \<Rightarrow> store st key rec now)))"

text \<open>
  The loop over the receive attempts that the run sees. \<open>Waiting\<close>: every attempt
  given has been handled and the loop is blocked in the next \<^verbatim>\<open>recvfrom\<close>. The
  second component is the attempts that were never made.
\<close>

datatype loop_end = Crashed py_exc | Stopped state | Waiting state

fun main_loop ::
  "(string \<Rightarrow> py_exc + pyval) \<Rightarrow> state \<Rightarrow> event list \<Rightarrow> loop_end \<times> event list"
where
  "main_loop loads st [] = (Waiting st, [])"
| "main_loop loads st (ev # evs) =
     (case loop_body loads st ev of
        Continue st' \<Rightarrow> main_loop loads st' evs
      | Break st' \<Rightarrow> (Stopped st', evs)
      | Raise e \<Rightarrow> (Crashed e, evs))"

text \<open>
  \<^verbatim>\<open>main\<close>: the loop from the empty table, then the selector and the summary (lines
  157 to 168). \<open>end_now\<close> is the value of the last \<^verbatim>\<open>now_ms()\<close>. \<open>Exit s\<close>: the
  summary \<open>s\<close> is printed and the process exits with status 0; \<open>Abort e\<close>: the
  exception \<open>e\<close> ends the process and nothing is printed.
\<close>

record summary =
  topic :: string
  count :: nat
  nearest :: "(string \<times> pyfloat) option"
  ts :: int

datatype run = Exit summary | Abort py_exc | Blocked

definition main :: "(string \<Rightarrow> py_exc + pyval) \<Rightarrow> event list \<Rightarrow> int \<Rightarrow> run" where
  "main loads evs end_now =
     (case fst (main_loop loads init_state evs) of
        Crashed e \<Rightarrow> Abort e
      | Waiting st \<Rightarrow> Blocked
      | Stopped st \<Rightarrow>
          (case nearest_neighbor (neighbors st) of
             Inl e \<Rightarrow> Abort e
           | Inr nn \<Rightarrow>
               Exit \<lparr>topic = ''/v2x/neighbor_summary'', count = length (neighbors st),
                     nearest = nn, ts = end_now\<rparr>))"

section \<open>Notions used in the properties\<close>

text \<open>A receive attempt that the loop answers with one of the \<^verbatim>\<open>continue\<close>
  statements of lines 109 to 133: a datagram that \<^verbatim>\<open>json.loads\<close> refuses with
  JSONDecodeError, or whose decoded value fails the validation.\<close>

definition discarded :: "(string \<Rightarrow> py_exc + pyval) \<Rightarrow> event \<Rightarrow> bool" where
  "discarded loads ev =
     (case ev of
        Timeout \<Rightarrow> False
      | Datagram data now \<Rightarrow>
          (case decode loads data of
             Inl e \<Rightarrow> e = JSONDecodeError
           | Inr msg \<Rightarrow> validate msg = None))"

text \<open>The id of a receive attempt that reaches the assignment of line 137: a datagram
  that decodes to a value which passes the validation.\<close>

definition accepted :: "(string \<Rightarrow> py_exc + pyval) \<Rightarrow> event \<Rightarrow> string option" where
  "accepted loads ev =
     (case ev of
        Timeout \<Rightarrow> None
      | Datagram data now \<Rightarrow>
          (case decode loads data of
             Inl e \<Rightarrow> None
           | Inr msg \<Rightarrow> map_option fst (validate msg)))"

text \<open>The receive attempts that a run of \<^verbatim>\<open>main\<close> makes before its loop ends, and
  the ids accepted among them.\<close>

definition processed :: "(string \<Rightarrow> py_exc + pyval) \<Rightarrow> event list \<Rightarrow> event list" where
  "processed loads evs = take (length evs - length (snd (main_loop loads init_state evs))) evs"

definition accepted_ids :: "(string \<Rightarrow> py_exc + pyval) \<Rightarrow> event list \<Rightarrow> string set" where
  "accepted_ids loads evs = set (List.map_filter (accepted loads) (processed loads evs))"

text \<open>The number of entries a table holds for one id.\<close>

definition entries_for :: "string \<Rightarrow> (string \<times> pyval) list \<Rightarrow> nat" where
  "entries_for k tbl = length (filter (\<lambda>p. fst p = k) tbl)"

text \<open>A table entry that the selector cannot evaluate because of its shape: it is no
  dictionary, or it has no key \<open>pos\<close>, or its \<open>pos\<close> is not a list or tuple of two
  elements that are all integers or floats.\<close>

definition bad_pos :: "pyval \<Rightarrow> bool" where
  "bad_pos data =
     (case getitem data ''pos'' of
        Inl e \<Rightarrow> True
      | Inr pos \<Rightarrow>
          (case list_or_tuple pos of
             None \<Rightarrow> True
           | Some xs \<Rightarrow> length xs \<noteq> 2 \<or> \<not> list_all isinstance_int_float xs))"





text \<open>A table entry on which the loop of the selector goes on: its distance is
  computed, or the exception is one the loop catches.\<close>

definition survives :: "pyval \<Rightarrow> bool" where
  "survives data = (case entry_dist data of Inl e \<Rightarrow> caught e | Inr d \<Rightarrow> True)"

text \<open>The clock value of the first accepted datagram among receive attempts: the time the
  collection window is anchored to, if any.\<close>

fun first_valid_time :: "(string \<Rightarrow> py_exc + pyval) \<Rightarrow> event list \<Rightarrow> int option" where
  "first_valid_time loads [] = None"
| "first_valid_time loads (Timeout # evs) = first_valid_time loads evs"
| "first_valid_time loads (Datagram data now # evs) =
     (if accepted loads (Datagram data now) \<noteq> None then Some now
      else first_valid_time loads evs)"

text \<open>The anchor of the window after the attempts \<open>done\<close>, for a loop that starts in the
  state \<open>st\<close>: the value \<open>first_ts\<close> has already, or else the time of the first
  accepted datagram.\<close>

definition anchor :: "(string \<Rightarrow> py_exc + pyval) \<Rightarrow> state \<Rightarrow> event list \<Rightarrow> int option" where
  "anchor loads st done =
     (case first_ts st of Some t \<Rightarrow> Some t | None \<Rightarrow> first_valid_time loads done)"

text \<open>A receive attempt that closes the collection for a window anchored at \<open>a\<close>: a
  timeout of the socket, or an accepted datagram that arrives 1000 ms or more after
  the anchor.\<close>

definition closes :: "(string \<Rightarrow> py_exc + pyval) \<Rightarrow> int option \<Rightarrow> event \<Rightarrow> bool" where
  "closes loads a ev =
     (case ev of
        Timeout \<Rightarrow> True
      | Datagram data now \<Rightarrow>
          accepted loads ev \<noteq> None \<and>
          (case a of None \<Rightarrow> False | Some t \<Rightarrow> COLLECT_WINDOW_MS \<le> now - t))"

text \<open>A datagram whose decoding raises the exception \<open>e\<close>, which is not the one the
  loop catches.\<close>

definition raises :: "(string \<Rightarrow> py_exc + pyval) \<Rightarrow> py_exc \<Rightarrow> event \<Rightarrow> bool" where
  "raises loads e ev =
     (case ev of
        Timeout \<Rightarrow> False
      | Datagram data now \<Rightarrow> decode loads data = Inl e \<and> e \<noteq> JSONDecodeError)"




section \<open>Example inputs\<close>

text \<open>The table entry that a beacon with position \<open>pos\<close>, speed 1 and timestamp 1
  leaves, and the beacon itself.\<close>

definition entry :: "pyval \<Rightarrow> pyval" where
  "entry pos = PDict [(''pos'', pos), (''speed'', PInt 1), (''last_ts'', PInt 1)]"

definition beacon :: "string \<Rightarrow> pyval \<Rightarrow> pyval" where
  "beacon i pos = PDict [(''id'', PStr i), (''pos'', pos), (''speed'', PInt 1), (''ts'', PInt 1)]"

text \<open>The value of
  \<^verbatim>\<open>{"id": "veh_3", "pos": [true, false], "speed": true, "ts": false}\<close>.\<close>

definition bool_beacon :: "(string \<times> pyval) list" where
  "bool_beacon = [(''id'', PStr ''veh_3''), (''pos'', PList [PBool True, PBool False]),
                  (''speed'', PBool True), (''ts'', PBool False)]"

text \<open>A stand-in for \<^verbatim>\<open>json.loads\<close> on six texts: three beacons (two of them from
  the same vehicle), the number \<open>0\<close>, the beacon with booleans, and JSONDecodeError
  for everything else.\<close>

definition ex_loads :: "string \<Rightarrow> py_exc + pyval" where
  "ex_loads txt =
     (if txt = ''A'' then Inr (beacon ''veh_1'' (PList [PInt 3, PInt 4]))
      else if txt = ''B'' then Inr (beacon ''veh_1'' (PList [PInt 1, PInt 1]))
      else if txt = ''C'' then Inr (beacon ''veh_2'' (PList [PInt (- 5), PInt 0]))
      else if txt = ''0'' then Inr (PInt 0)
      else if txt = ''T'' then Inr (PDict bool_beacon)
      else Inl JSONDecodeError)"

text \<open>A run: a beacon of \<open>veh_1\<close>, a datagram that is no beacon, a second beacon of
  \<open>veh_1\<close>, a beacon of \<open>veh_2\<close> after the window has elapsed, and a datagram that
  is never read.\<close>

definition ex_run :: "event list" where
  "ex_run = [Datagram [0x41] 0, Datagram [0x30] 10, Datagram [0x42] 500,
             Datagram [0x43] 1200, Datagram [0x41] 1300]"

section \<open>Properties of the receiver\<close>

text \<open>A datagram that is not well-formed UTF-8 ends the iteration with an exception
  that no handler of the loop catches.\<close>

lemma invalid_utf8_raises:
  "\<not> utf8_valid data \<Longrightarrow> loop_body loads st (Datagram data now) = Raise UnicodeDecodeError"
  by (simp add: loop_body_def decode_def decode_utf8_def)

text \<open>
  Claim C1 (malformed datagrams are discarded and never end the process abnormally)
  fails for the first kind of malformed datagram it lists, bytes that are not valid
  UTF-8. The one-byte datagram \<open>0xFF\<close> makes \<^verbatim>\<open>data.decode("utf-8")\<close> raise
  UnicodeDecodeError, which is not a \<^verbatim>\<open>json.JSONDecodeError\<close>: whatever the parser
  is and whatever time it is, the exception leaves the loop and \<^verbatim>\<open>main\<close>, and no
  summary is printed.
\<close>

theorem C1_invalid_utf8_aborts:
  "loop_body loads st (Datagram [0xFF] now) = Raise UnicodeDecodeError \<and>
   main loads (Datagram [0xFF] now # evs) end_now = Abort UnicodeDecodeError"
  by (simp add: main_def loop_body_def decode_def decode_utf8_def in_range_def)

subsection \<open>One iteration of the loop\<close>

lemma validate_SomeD:
  assumes "validate msg = Some (key, rec)"
  obtains m pos speed t where "msg = PDict m" "map_of m ''id'' = Some (PStr key)"
    "map_of m ''pos'' = Some pos" "map_of m ''speed'' = Some speed" "map_of m ''ts'' = Some t"
    "rec = PDict [(''pos'', pos), (''speed'', speed), (''last_ts'', t)]"
  using assms
  by (auto simp: validate_def split: pyval.splits option.splits if_splits)

lemma loop_body_valid:
  "decode loads data = Inr msg \<Longrightarrow> validate msg = Some (key, rec) \<Longrightarrow>
   loop_body loads st (Datagram data now) = store st key rec now"
  by (simp add: loop_body_def)

lemma loop_body_discarded: "discarded loads ev \<Longrightarrow> loop_body loads st ev = Continue st"
  by (auto simp: loop_body_def discarded_def split: event.splits sum.splits)

lemma store_cases:
  "\<exists>st'. (store st key rec now = Continue st' \<or> store st key rec now = Break st') \<and>
         neighbors st' = AList.update key rec (neighbors st)"
  by (simp add: store_def Let_def)

lemma loop_body_state:
  assumes "loop_body loads st ev = Continue st' \<or> loop_body loads st ev = Break st'"
  shows "(accepted loads ev = None \<and> neighbors st' = neighbors st) \<or>
         (\<exists>key rec. accepted loads ev = Some key \<and>
            neighbors st' = AList.update key rec (neighbors st))"
proof (cases ev)
  case Timeout
  with assms show ?thesis by (simp add: loop_body_def accepted_def)
next
  case (Datagram data now)
  show ?thesis
  proof (cases "decode loads data")
    case (Inl e)
    with assms Datagram show ?thesis
      by (auto simp: loop_body_def accepted_def split: if_splits)
  next
    case (Inr msg)
    show ?thesis
    proof (cases "validate msg")
      case None
      with assms Datagram Inr show ?thesis by (auto simp: loop_body_def accepted_def)
    next
      case (Some kr)
      obtain key rec where kr: "kr = (key, rec)" by (cases kr)
      from assms Datagram Inr Some kr
      have "store st key rec now = Continue st' \<or> store st key rec now = Break st'"
        by (simp add: loop_body_def)
      then have "neighbors st' = AList.update key rec (neighbors st)"
        by (auto simp: store_def Let_def split: if_splits)
      moreover have "accepted loads ev = Some key"
        using Datagram Inr Some kr by (simp add: accepted_def)
      ultimately show ?thesis by blast
    qed
  qed
qed

lemma step_keys:
  assumes "loop_body loads st ev = Continue st' \<or> loop_body loads st ev = Break st'"
  shows "fst ` set (neighbors st') = fst ` set (neighbors st) \<union> set_option (accepted loads ev)"
    and "distinct (map fst (neighbors st)) \<Longrightarrow> distinct (map fst (neighbors st'))"
proof -
  show "fst ` set (neighbors st') = fst ` set (neighbors st) \<union> set_option (accepted loads ev)"
    using loop_body_state[OF assms]
    by (elim disjE exE conjE) (simp_all add: AList.dom_update)
  show "distinct (map fst (neighbors st)) \<Longrightarrow> distinct (map fst (neighbors st'))"
    using loop_body_state[OF assms]
    by (elim disjE exE conjE) (simp_all add: AList.distinct_update)
qed

subsection \<open>Runs of the loop\<close>

lemma main_loop_discarded:
  "list_all (discarded loads) pre \<Longrightarrow> main_loop loads st pre = (Waiting st, [])"
  by (induction pre) (simp_all add: loop_body_discarded)

lemma main_loop_append:
  "main_loop loads st xs = (Waiting st', rest) \<Longrightarrow>
   main_loop loads st (xs @ ys) = main_loop loads st' ys"
  by (induction xs arbitrary: st) (auto split: step.splits)

text \<open>The keys of the table after a run are the keys before it and the ids accepted
  on the way; a table without a repeated key stays one.\<close>

lemma main_loop_keys:
  assumes "main_loop loads st evs = (r, rest)" and "r = Waiting st' \<or> r = Stopped st'"
  shows "\<exists>done. evs = done @ rest \<and>
           fst ` set (neighbors st') =
             fst ` set (neighbors st) \<union> set (List.map_filter (accepted loads) done) \<and>
           (distinct (map fst (neighbors st)) \<longrightarrow> distinct (map fst (neighbors st')))"
  using assms
proof (induction evs arbitrary: st)
  case Nil
  then show ?case by auto
next
  case (Cons ev evs)
  show ?case
  proof (cases "loop_body loads st ev")
    case (Continue st1)
    with Cons.prems have run: "main_loop loads st1 evs = (r, rest)" by simp
    from Cons.IH[OF run Cons.prems(2)] obtain dn where dn: "evs = dn @ rest"
      "fst ` set (neighbors st') =
         fst ` set (neighbors st1) \<union> set (List.map_filter (accepted loads) dn)"
      "distinct (map fst (neighbors st1)) \<longrightarrow> distinct (map fst (neighbors st'))"
      by blast
    have k: "fst ` set (neighbors st1) = fst ` set (neighbors st) \<union> set_option (accepted loads ev)"
      and d: "distinct (map fst (neighbors st)) \<Longrightarrow> distinct (map fst (neighbors st1))"
      using step_keys[of loads st ev st1] Continue by auto
    have "ev # evs = (ev # dn) @ rest" using dn(1) by simp
    moreover have "fst ` set (neighbors st') =
        fst ` set (neighbors st) \<union> set (List.map_filter (accepted loads) (ev # dn))"
      using dn(2) k by (cases "accepted loads ev") auto
    moreover have "distinct (map fst (neighbors st)) \<longrightarrow> distinct (map fst (neighbors st'))"
      using dn(3) d by blast
    ultimately show ?thesis by blast
  next
    case (Break st1)
    with Cons.prems have eq: "st' = st1" "rest = evs" by auto
    have k: "fst ` set (neighbors st1) = fst ` set (neighbors st) \<union> set_option (accepted loads ev)"
      and d: "distinct (map fst (neighbors st)) \<Longrightarrow> distinct (map fst (neighbors st1))"
      using step_keys[of loads st ev st1] Break by auto
    have "ev # evs = [ev] @ rest" using eq by simp
    moreover have "fst ` set (neighbors st') =
        fst ` set (neighbors st) \<union> set (List.map_filter (accepted loads) [ev])"
      using k eq by (cases "accepted loads ev") auto
    moreover have "distinct (map fst (neighbors st)) \<longrightarrow> distinct (map fst (neighbors st'))"
      using d eq by blast
    ultimately show ?thesis by blast
  next
    case (Raise e)
    with Cons.prems show ?thesis by auto
  qed
qed

lemma run_keys:
  assumes "main_loop loads init_state evs = (r, rest)" and "r = Waiting st \<or> r = Stopped st"
  shows "fst ` set (neighbors st) = accepted_ids loads evs"
    and "distinct (map fst (neighbors st))"
proof -
  from main_loop_keys[OF assms] obtain dn where dn: "evs = dn @ rest"
    "fst ` set (neighbors st) =
       fst ` set (neighbors init_state) \<union> set (List.map_filter (accepted loads) dn)"
    "distinct (map fst (neighbors init_state)) \<longrightarrow> distinct (map fst (neighbors st))"
    by blast
  have "processed loads evs = dn"
    using dn(1) assms(1) by (simp add: processed_def)
  then show "fst ` set (neighbors st) = accepted_ids loads evs"
    using dn(2) by (simp add: accepted_ids_def init_state_def)
  show "distinct (map fst (neighbors st))"
    using dn(3) by (simp add: init_state_def)
qed

lemma run_count:
  assumes "main_loop loads init_state evs = (r, rest)" and "r = Waiting st \<or> r = Stopped st"
  shows "length (neighbors st) = card (accepted_ids loads evs)"
proof -
  have "card (fst ` set (neighbors st)) = length (neighbors st)"
    using run_keys(2)[OF assms] by (metis distinct_card length_map set_map)
  then show ?thesis using run_keys(1)[OF assms] by simp
qed

subsection \<open>The example run\<close>

lemma ex_decode:
  "decode ex_loads [0x41] = Inr (beacon ''veh_1'' (PList [PInt 3, PInt 4]))"
  "decode ex_loads [0x42] = Inr (beacon ''veh_1'' (PList [PInt 1, PInt 1]))"
  "decode ex_loads [0x43] = Inr (beacon ''veh_2'' (PList [PInt (- 5), PInt 0]))"
  "decode ex_loads [0x30] = Inr (PInt 0)"
  "decode ex_loads [] = Inl JSONDecodeError"
  "decode ex_loads [0x54] = Inr (PDict bool_beacon)"
  by (simp_all add: decode_def decode_utf8_def ex_loads_def char_of_def bit_0)

lemma validate_beacon:
  "list_or_tuple pos = Some [x, y] \<Longrightarrow> isinstance_int_float x \<Longrightarrow> isinstance_int_float y \<Longrightarrow>
   validate (beacon i pos) = Some (i, entry pos)"
  by (simp add: validate_def beacon_def entry_def required_keys_def)

lemma validate_not_dict: "validate (PInt n) = None"
  by (simp add: validate_def)

lemma ex_main_loop:
  "main_loop ex_loads init_state ex_run =
     (Stopped \<lparr>neighbors = [(''veh_1'', entry (PList [PInt 1, PInt 1])),
                            (''veh_2'', entry (PList [PInt (- 5), PInt 0]))],
               first_ts = Some 0\<rparr>,
      [Datagram [0x41] 1300])"
  by (simp add: ex_run_def loop_body_def ex_decode validate_beacon validate_not_dict store_def
      init_state_def COLLECT_WINDOW_MS_def)

subsection \<open>Facts about the table\<close>

lemma length_update:
  "length (AList.update k v tbl) = (if k \<in> fst ` set tbl then length tbl else Suc (length tbl))"
  by (induction tbl) auto

lemma entries_for_distinct:
  "distinct (map fst tbl) \<Longrightarrow> k \<in> fst ` set tbl \<Longrightarrow> entries_for k tbl = 1"
  unfolding entries_for_def
proof (induction tbl)
  case Nil
  then show ?case by simp
next
  case (Cons p tbl)
  show ?case
  proof (cases "fst p = k")
    case True
    with Cons.prems(1) have "k \<notin> fst ` set tbl" by auto
    then have "\<forall>q \<in> set tbl. fst q \<noteq> k" by blast
    then have "filter (\<lambda>q. fst q = k) tbl = []"
      by (simp add: filter_empty_conv)
    with True show ?thesis by simp
  next
    case False
    with Cons show ?thesis by auto
  qed
qed

subsection \<open>The window\<close>

lemma anchor_Nil: "anchor loads st [] = first_ts st"
  by (simp add: anchor_def split: option.splits)

lemma accepted_cases:
  obtains (timeout) "ev = Timeout"
  | (continue) data now where "ev = Datagram data now" "accepted loads ev = None"
      "loop_body loads st ev = Continue st"
  | (raise) data now e where "ev = Datagram data now" "accepted loads ev = None"
      "loop_body loads st ev = Raise e" "raises loads e ev"
  | (stored) data now key rec where "ev = Datagram data now" "accepted loads ev = Some key"
      "loop_body loads st ev = store st key rec now"
proof (cases ev)
  case Timeout
  then show ?thesis by (rule timeout)
next
  case (Datagram data now)
  show ?thesis
  proof (cases "decode loads data")
    case (Inl e)
    show ?thesis
    proof (cases "e = JSONDecodeError")
      case True
      with Datagram Inl show ?thesis
        by (intro continue[of data now]) (simp_all add: accepted_def loop_body_def)
    next
      case False
      with Datagram Inl show ?thesis
        by (intro raise[of data now e]) (simp_all add: accepted_def loop_body_def raises_def)
    qed
  next
    case (Inr msg)
    show ?thesis
    proof (cases "validate msg")
      case None
      with Datagram Inr show ?thesis
        by (intro continue[of data now]) (simp_all add: accepted_def loop_body_def)
    next
      case (Some kr)
      obtain key rec where "kr = (key, rec)" by (cases kr)
      with Datagram Inr Some show ?thesis
        by (intro stored[of data now key rec]) (simp_all add: accepted_def loop_body_def)
    qed
  qed
qed

lemma step_Continue:
  assumes "loop_body loads st ev = Continue st1"
  shows "anchor loads st (ev # done) = anchor loads st1 done"
    and "\<not> closes loads (anchor loads st1 done) ev"
proof -
  have "anchor loads st (ev # done) = anchor loads st1 done \<and>
        \<not> closes loads (anchor loads st1 done) ev"
  proof (cases ev rule: accepted_cases[where loads=loads and st=st])
    case timeout
    with assms show ?thesis by (simp add: loop_body_def)
  next
    case (continue data now)
    with assms show ?thesis by (simp add: anchor_def closes_def split: option.splits)
  next
    case (raise data now e)
    with assms show ?thesis by simp
  next
    case (stored data now key rec)
    with assms have "store st key rec now = Continue st1" by simp
    then have "first_ts st1 = Some (case first_ts st of None \<Rightarrow> now | Some t \<Rightarrow> t)"
      and "\<not> COLLECT_WINDOW_MS \<le> now - (case first_ts st of None \<Rightarrow> now | Some t \<Rightarrow> t)"
      by (auto simp: store_def Let_def split: if_splits)
    with stored show ?thesis
      by (auto simp: anchor_def closes_def split: option.splits)
  qed
  then show "anchor loads st (ev # done) = anchor loads st1 done"
    and "\<not> closes loads (anchor loads st1 done) ev" by simp_all
qed

lemma step_Break:
  assumes "loop_body loads st ev = Break st1"
  shows "first_ts st1 = anchor loads st [ev] \<and> closes loads (anchor loads st [ev]) ev"
proof (cases ev rule: accepted_cases[where loads=loads and st=st])
  case timeout
  with assms show ?thesis by (simp add: loop_body_def anchor_def closes_def split: option.splits)
next
  case (continue data now)
  with assms show ?thesis by simp
next
  case (raise data now e)
  with assms show ?thesis by simp
next
  case (stored data now key rec)
  with assms have "store st key rec now = Break st1" by simp
  then have "first_ts st1 = Some (case first_ts st of None \<Rightarrow> now | Some t \<Rightarrow> t)"
    and "COLLECT_WINDOW_MS \<le> now - (case first_ts st of None \<Rightarrow> now | Some t \<Rightarrow> t)"
    by (auto simp: store_def Let_def split: if_splits)
  with stored show ?thesis
    by (auto simp: anchor_def closes_def split: option.splits)
qed

lemma step_Raise:
  assumes "loop_body loads st ev = Raise e"
  shows "raises loads e ev"
proof (cases ev rule: accepted_cases[where loads=loads and st=st])
  case timeout
  with assms show ?thesis by (simp add: loop_body_def)
next
  case (continue data now)
  with assms show ?thesis by simp
next
  case (raise data now e')
  with assms show ?thesis by simp
next
  case (stored data now key rec)
  with assms show ?thesis by (simp add: store_def Let_def split: if_splits)
qed

text \<open>
  Where a run of the loop ends, whatever it receives: the loop handles the attempts up
  to the first one that closes the window or raises, and \<open>first_ts\<close> is the anchor.
\<close>

lemma main_loop_window:
  assumes "main_loop loads st evs = (r, rest)"
  shows "\<exists>done. evs = done @ rest \<and>
           (\<forall>st'. r = Waiting st' \<longrightarrow>
              rest = [] \<and> first_ts st' = anchor loads st done \<and>
              list_all (\<lambda>ev. \<not> closes loads (anchor loads st done) ev) done) \<and>
           (\<forall>st'. r = Stopped st' \<longrightarrow>
              first_ts st' = anchor loads st done \<and> done \<noteq> [] \<and>
              closes loads (anchor loads st done) (last done) \<and>
              list_all (\<lambda>ev. \<not> closes loads (anchor loads st done) ev) (butlast done)) \<and>
           (\<forall>e. r = Crashed e \<longrightarrow>
              done \<noteq> [] \<and> raises loads e (last done) \<and>
              list_all (\<lambda>ev. \<not> closes loads (anchor loads st done) ev) (butlast done))"
  using assms
proof (induction evs arbitrary: st)
  case Nil
  then show ?case by (auto simp: anchor_Nil)
next
  case (Cons ev evs)
  show ?case
  proof (cases "loop_body loads st ev")
    case (Continue st1)
    with Cons.prems have run: "main_loop loads st1 evs = (r, rest)" by simp
    from Cons.IH[OF run] obtain dn where dn: "evs = dn @ rest"
      "\<forall>st'. r = Waiting st' \<longrightarrow>
          rest = [] \<and> first_ts st' = anchor loads st1 dn \<and>
          list_all (\<lambda>ev. \<not> closes loads (anchor loads st1 dn) ev) dn"
      "\<forall>st'. r = Stopped st' \<longrightarrow>
          first_ts st' = anchor loads st1 dn \<and> dn \<noteq> [] \<and>
          closes loads (anchor loads st1 dn) (last dn) \<and>
          list_all (\<lambda>ev. \<not> closes loads (anchor loads st1 dn) ev) (butlast dn)"
      "\<forall>e. r = Crashed e \<longrightarrow>
          dn \<noteq> [] \<and> raises loads e (last dn) \<and>
          list_all (\<lambda>ev. \<not> closes loads (anchor loads st1 dn) ev) (butlast dn)"
      by blast
    have a: "anchor loads st (ev # dn) = anchor loads st1 dn"
      and c: "\<not> closes loads (anchor loads st1 dn) ev"
      using step_Continue[OF Continue] by simp_all
    have "ev # evs = (ev # dn) @ rest" using dn(1) by simp
    moreover have "\<forall>st'. r = Waiting st' \<longrightarrow>
          rest = [] \<and> first_ts st' = anchor loads st (ev # dn) \<and>
          list_all (\<lambda>ev'. \<not> closes loads (anchor loads st (ev # dn)) ev') (ev # dn)"
      using dn(2) a c by simp
    moreover have "\<forall>st'. r = Stopped st' \<longrightarrow>
          first_ts st' = anchor loads st (ev # dn) \<and> ev # dn \<noteq> [] \<and>
          closes loads (anchor loads st (ev # dn)) (last (ev # dn)) \<and>
          list_all (\<lambda>ev'. \<not> closes loads (anchor loads st (ev # dn)) ev') (butlast (ev # dn))"
      using dn(3) a c by simp
    moreover have "\<forall>e. r = Crashed e \<longrightarrow>
          ev # dn \<noteq> [] \<and> raises loads e (last (ev # dn)) \<and>
          list_all (\<lambda>ev'. \<not> closes loads (anchor loads st (ev # dn)) ev') (butlast (ev # dn))"
      using dn(4) a c by simp
    ultimately show ?thesis by blast
  next
    case (Break st1)
    with Cons.prems have eq: "r = Stopped st1" "rest = evs" by auto
    from step_Break[OF Break] eq show ?thesis
      by (intro exI[of _ "[ev]"]) simp
  next
    case (Raise e)
    with Cons.prems have eq: "r = Crashed e" "rest = evs" by auto
    from step_Raise[OF Raise] eq show ?thesis
      by (intro exI[of _ "[ev]"]) simp
  qed
qed

lemma store_eq:
  "store st key rec now =
     (case first_ts st of
        None \<Rightarrow> Continue \<lparr>neighbors = AList.update key rec (neighbors st), first_ts = Some now\<rparr>
      | Some t \<Rightarrow>
          if COLLECT_WINDOW_MS \<le> now - t
          then Break \<lparr>neighbors = AList.update key rec (neighbors st), first_ts = Some t\<rparr>
          else Continue \<lparr>neighbors = AList.update key rec (neighbors st), first_ts = Some t\<rparr>)"
  by (simp add: store_def COLLECT_WINDOW_MS_def split: option.splits)

lemma first_valid_time_None:
  "list_all (\<lambda>ev. accepted loads ev = None) evs \<Longrightarrow> first_valid_time loads evs = None"
  by (induction loads evs rule: first_valid_time.induct) simp_all

text \<open>
  Claim C3: the collection window is anchored to the first valid beacon. For every run
  of the loop from the start of \<^verbatim>\<open>main\<close>, whatever datagrams arrive:
  \<^item> while the loop runs and when it has stopped, \<open>first_ts\<close> is the receiver's clock
    value at the first accepted datagram, and it is unset when no datagram has been
    accepted, however many invalid ones have come and however long that took;
  \<^item> the loop is still running only if no attempt so far closes the window, that is, no
    timeout has occurred and no accepted datagram has come 1000 ms or more after the
    anchor;
  \<^item> the loop stops with \<^verbatim>\<open>break\<close> at the first attempt that closes the window and
    handles nothing after it;
  \<^item> it ends with an exception only at a datagram whose decoding raises one that is not
    caught.
  In one iteration a valid beacon is stored and, when \<open>first_ts\<close> is unset, sets it to
  the clock value \<open>now\<close>, whatever the beacon's own \<open>ts\<close> is, and the loop goes on;
  when \<open>first_ts\<close> is \<open>t\<close>, the loop stops exactly when \<open>now - t\<close> is 1000 or more.
\<close>

theorem C3_window_anchored_at_first_valid_beacon:
  assumes "main_loop loads init_state evs = (r, rest)"
  shows "evs = processed loads evs @ rest \<and>
    (\<forall>st. r = Waiting st \<or> r = Stopped st \<longrightarrow>
       first_ts st = first_valid_time loads (processed loads evs)) \<and>
    (\<forall>st. (r = Waiting st \<or> r = Stopped st) \<and>
          list_all (\<lambda>ev. accepted loads ev = None) (processed loads evs) \<longrightarrow>
       first_ts st = None) \<and>
    (\<forall>st. r = Waiting st \<longrightarrow>
       rest = [] \<and>
       list_all (\<lambda>ev. \<not> closes loads (first_valid_time loads (processed loads evs)) ev)
         (processed loads evs)) \<and>
    (\<forall>st. r = Stopped st \<longrightarrow>
       processed loads evs \<noteq> [] \<and>
       closes loads (first_valid_time loads (processed loads evs)) (last (processed loads evs)) \<and>
       list_all (\<lambda>ev. \<not> closes loads (first_valid_time loads (processed loads evs)) ev)
         (butlast (processed loads evs))) \<and>
    (\<forall>e. r = Crashed e \<longrightarrow>
       processed loads evs \<noteq> [] \<and> raises loads e (last (processed loads evs)) \<and>
       list_all (\<lambda>ev. \<not> closes loads (first_valid_time loads (processed loads evs)) ev)
         (butlast (processed loads evs))) \<and>
    (decode loads data = Inr msg \<and> validate msg = Some (key, rec) \<longrightarrow>
       main_loop loads st0 (Datagram data now # post) =
         (case first_ts st0 of
            None \<Rightarrow>
              main_loop loads
                \<lparr>neighbors = AList.update key rec (neighbors st0), first_ts = Some now\<rparr> post
          | Some t \<Rightarrow>
              if COLLECT_WINDOW_MS \<le> now - t
              then (Stopped \<lparr>neighbors = AList.update key rec (neighbors st0), first_ts = Some t\<rparr>,
                    post)
              else main_loop loads
                     \<lparr>neighbors = AList.update key rec (neighbors st0), first_ts = Some t\<rparr> post))"
proof -
  from main_loop_window[OF assms] obtain dn where dn: "evs = dn @ rest"
    "\<forall>st'. r = Waiting st' \<longrightarrow>
        rest = [] \<and> first_ts st' = anchor loads init_state dn \<and>
        list_all (\<lambda>ev. \<not> closes loads (anchor loads init_state dn) ev) dn"
    "\<forall>st'. r = Stopped st' \<longrightarrow>
        first_ts st' = anchor loads init_state dn \<and> dn \<noteq> [] \<and>
        closes loads (anchor loads init_state dn) (last dn) \<and>
        list_all (\<lambda>ev. \<not> closes loads (anchor loads init_state dn) ev) (butlast dn)"
    "\<forall>e. r = Crashed e \<longrightarrow>
        dn \<noteq> [] \<and> raises loads e (last dn) \<and>
        list_all (\<lambda>ev. \<not> closes loads (anchor loads init_state dn) ev) (butlast dn)"
    by blast
  have p: "processed loads evs = dn"
    using dn(1) assms by (simp add: processed_def)
  have a: "anchor loads init_state dn = first_valid_time loads dn"
    by (simp add: anchor_def init_state_def)
  have split: "evs = processed loads evs @ rest" using dn(1) p by simp
  have anchored: "\<forall>st. r = Waiting st \<or> r = Stopped st \<longrightarrow>
       first_ts st = first_valid_time loads (processed loads evs)"
    using dn(2,3) p a by auto
  then have unset: "\<forall>st. (r = Waiting st \<or> r = Stopped st) \<and>
          list_all (\<lambda>ev. accepted loads ev = None) (processed loads evs) \<longrightarrow>
       first_ts st = None"
    using first_valid_time_None[of loads "processed loads evs"] by auto
  have running: "\<forall>st. r = Waiting st \<longrightarrow>
       rest = [] \<and>
       list_all (\<lambda>ev. \<not> closes loads (first_valid_time loads (processed loads evs)) ev)
         (processed loads evs)"
    using dn(2) p a by simp
  have stopped: "\<forall>st. r = Stopped st \<longrightarrow>
       processed loads evs \<noteq> [] \<and>
       closes loads (first_valid_time loads (processed loads evs)) (last (processed loads evs)) \<and>
       list_all (\<lambda>ev. \<not> closes loads (first_valid_time loads (processed loads evs)) ev)
         (butlast (processed loads evs))"
    using dn(3) p a by simp
  have crashed: "\<forall>e. r = Crashed e \<longrightarrow>
       processed loads evs \<noteq> [] \<and> raises loads e (last (processed loads evs)) \<and>
       list_all (\<lambda>ev. \<not> closes loads (first_valid_time loads (processed loads evs)) ev)
         (butlast (processed loads evs))"
    using dn(4) p a by simp
  have step: "decode loads data = Inr msg \<and> validate msg = Some (key, rec) \<longrightarrow>
       main_loop loads st0 (Datagram data now # post) =
         (case first_ts st0 of
            None \<Rightarrow>
              main_loop loads
                \<lparr>neighbors = AList.update key rec (neighbors st0), first_ts = Some now\<rparr> post
          | Some t \<Rightarrow>
              if COLLECT_WINDOW_MS \<le> now - t
              then (Stopped \<lparr>neighbors = AList.update key rec (neighbors st0), first_ts = Some t\<rparr>,
                    post)
              else main_loop loads
                     \<lparr>neighbors = AList.update key rec (neighbors st0), first_ts = Some t\<rparr> post)"
    by (simp add: loop_body_valid store_eq split: option.splits)
  from split anchored unset running stopped crashed step show ?thesis by blast
qed

lemma ex_accepted:
  "accepted ex_loads (Datagram [] n) = None"
  "accepted ex_loads (Datagram [0x30] n) = None"
  "accepted ex_loads (Datagram [0xFF] n) = None"
  "accepted ex_loads (Datagram [0x41] n) = Some ''veh_1''"
  "accepted ex_loads (Datagram [0x42] n) = Some ''veh_1''"
  "accepted ex_loads (Datagram [0x43] n) = Some ''veh_2''"
  by (simp_all add: accepted_def ex_decode validate_beacon validate_not_dict)
    (simp add: decode_def decode_utf8_def in_range_def)

theorem C3_window_witness:
  "main_loop ex_loads init_state [Datagram [] 0, Datagram [0x30] 5000] = (Waiting init_state, []) \<and>
   first_ts init_state = None \<and>
   main_loop ex_loads init_state
     [Datagram [] 0, Datagram [0x30] 5000, Datagram [0x41] 7000, Datagram [0x42] 7999,
      Datagram [0x43] 8000, Datagram [0x41] 8100] =
     (Stopped \<lparr>neighbors = [(''veh_1'', entry (PList [PInt 1, PInt 1])),
                            (''veh_2'', entry (PList [PInt (- 5), PInt 0]))],
               first_ts = Some 7000\<rparr>,
      [Datagram [0x41] 8100]) \<and>
   first_valid_time ex_loads
     [Datagram [] 0, Datagram [0x30] 5000, Datagram [0x41] 7000, Datagram [0x42] 7999,
      Datagram [0x43] 8000] = Some 7000 \<and>
   closes ex_loads (Some 7000) (Datagram [0x43] 8000) \<and>
   \<not> closes ex_loads (Some 7000) (Datagram [0x42] 7999) \<and>
   main_loop ex_loads init_state [Datagram [0x41] 7000, Datagram [0xFF] 7100, Datagram [0x42] 9000] =
     (Crashed UnicodeDecodeError, [Datagram [0x42] 9000])"
proof -
  let ?quiet = "[Datagram [] 0, Datagram [0x30] 5000]"
  let ?full = "[Datagram [] 0, Datagram [0x30] 5000, Datagram [0x41] 7000, Datagram [0x42] 7999,
      Datagram [0x43] 8000, Datagram [0x41] 8100]"
  let ?S = "\<lparr>neighbors = [(''veh_1'', entry (PList [PInt 1, PInt 1])),
                            (''veh_2'', entry (PList [PInt (- 5), PInt 0]))],
               first_ts = Some 7000\<rparr>"
  let ?bad = "[Datagram [0x41] 7000, Datagram [0xFF] 7100, Datagram [0x42] 9000]"
  have v: "validate (beacon ''veh_1'' (PList [PInt 3, PInt 4])) =
             Some (''veh_1'', entry (PList [PInt 3, PInt 4]))"
    by (simp add: validate_beacon)
  have quiet: "main_loop ex_loads init_state ?quiet = (Waiting init_state, [])"
    by (simp add: loop_body_def ex_decode validate_not_dict)
  have full: "main_loop ex_loads init_state ?full = (Stopped ?S, [Datagram [0x41] 8100])"
    by (simp add: loop_body_def ex_decode validate_beacon validate_not_dict store_def
        init_state_def COLLECT_WINDOW_MS_def)
  have undecodable: "decode ex_loads [0xFF] = Inl UnicodeDecodeError"
    by (simp add: decode_def decode_utf8_def in_range_def)
  have bad: "main_loop ex_loads init_state ?bad = (Crashed UnicodeDecodeError, [Datagram [0x42] 9000])"
    by (simp add: loop_body_def ex_decode undecodable validate_beacon store_def init_state_def
        COLLECT_WINDOW_MS_def)
  have pf: "processed ex_loads ?full =
      [Datagram [] 0, Datagram [0x30] 5000, Datagram [0x41] 7000, Datagram [0x42] 7999,
       Datagram [0x43] 8000]"
    by (simp only: processed_def full) simp
  note q = C3_window_anchored_at_first_valid_beacon
    [OF quiet, of "[0x41]" "beacon ''veh_1'' (PList [PInt 3, PInt 4])" "''veh_1''"
       "entry (PList [PInt 3, PInt 4])" init_state 7000 "[]"]
  note f = C3_window_anchored_at_first_valid_beacon
    [OF full, of "[0x41]" "beacon ''veh_1'' (PList [PInt 3, PInt 4])" "''veh_1''"
       "entry (PList [PInt 3, PInt 4])" "\<lparr>neighbors = [], first_ts = Some 7000\<rparr>" 8000 "[]"]
  note b = C3_window_anchored_at_first_valid_beacon
    [OF bad, of "[0x41]" "beacon ''veh_1'' (PList [PInt 3, PInt 4])" "''veh_1''"
       "entry (PList [PInt 3, PInt 4])" init_state 7000 "[]"]
  have pq: "processed ex_loads ?quiet = ?quiet"
    by (simp only: processed_def quiet) simp
  have "first_ts init_state = None"
    using q by (simp add: pq ex_accepted)
  moreover have "first_valid_time ex_loads (processed ex_loads ?full) = Some 7000"
    using f by simp
  moreover have "closes ex_loads (Some 7000) (Datagram [0x43] 8000)"
    using f calculation(2) by (simp add: pf)
  moreover have "\<not> closes ex_loads (Some 7000) (Datagram [0x42] 7999)"
    using f calculation(2) by (simp add: pf)
  ultimately show ?thesis
    using quiet full bad pf by simp
qed

subsection \<open>The table\<close>

text \<open>
  Claim C4: two valid beacons with the same id, processed one after the other. After the
  second, the table holds one entry for the id and as many entries as after the first
  (one, when nothing came before), and the entry is the record built from the position,
  the speed and the timestamp of the second beacon alone. The loop has gone on after
  the first beacon, else the second would not be processed.
\<close>

theorem C4_same_id_overwrites:
  assumes first: "decode loads d1 = Inr msg1" "validate msg1 = Some (key, rec1)"
    and second: "decode loads d2 = Inr (PDict m2)" "validate (PDict m2) = Some (key, rec2)"
    and run: "main_loop loads init_state (pre @ [Datagram d1 n1]) = (Waiting st1, [])"
  shows "\<exists>st2.
           (main_loop loads init_state (pre @ [Datagram d1 n1, Datagram d2 n2]) = (Waiting st2, []) \<or>
            main_loop loads init_state (pre @ [Datagram d1 n1, Datagram d2 n2]) = (Stopped st2, [])) \<and>
           entries_for key (neighbors st2) = 1 \<and>
           length (neighbors st2) = length (neighbors st1) \<and>
           (pre = [] \<longrightarrow> length (neighbors st2) = 1) \<and>
           (\<exists>pos speed t.
              map_of m2 ''pos'' = Some pos \<and> map_of m2 ''speed'' = Some speed \<and>
              map_of m2 ''ts'' = Some t \<and>
              map_of (neighbors st2) key =
                Some (PDict [(''pos'', pos), (''speed'', speed), (''last_ts'', t)]))"
proof -
  let ?D1 = "Datagram d1 n1" and ?D2 = "Datagram d2 n2"
  have dist1: "distinct (map fst (neighbors st1))"
    and keys1: "fst ` set (neighbors st1) = accepted_ids loads (pre @ [?D1])"
    using run_keys[OF run] by simp_all
  have "processed loads (pre @ [?D1]) = pre @ [?D1]"
    using run by (simp add: processed_def)
  moreover have "accepted loads ?D1 = Some key"
    using first by (simp add: accepted_def)
  ultimately have "key \<in> accepted_ids loads (pre @ [?D1])"
    by (simp add: accepted_ids_def List.map_filter_def)
  with keys1 have key1: "key \<in> fst ` set (neighbors st1)" by simp
  obtain st2 where st2:
    "store st1 key rec2 n2 = Continue st2 \<or> store st1 key rec2 n2 = Break st2"
    "neighbors st2 = AList.update key rec2 (neighbors st1)"
    using store_cases by blast
  have "main_loop loads init_state (pre @ [?D1, ?D2]) = main_loop loads st1 [?D2]"
    using main_loop_append[OF run, of "[?D2]"] by simp
  moreover have "loop_body loads st1 ?D2 = store st1 key rec2 n2"
    using second by (rule loop_body_valid)
  ultimately have end2:
    "main_loop loads init_state (pre @ [?D1, ?D2]) = (Waiting st2, []) \<or>
     main_loop loads init_state (pre @ [?D1, ?D2]) = (Stopped st2, [])"
    using st2(1) by auto
  have dist2: "distinct (map fst (neighbors st2))"
    using dist1 st2(2) by (simp add: AList.distinct_update)
  have key2: "key \<in> fst ` set (neighbors st2)"
    using st2(2) by (simp add: AList.dom_update)
  have one: "entries_for key (neighbors st2) = 1"
    using dist2 key2 by (rule entries_for_distinct)
  have len: "length (neighbors st2) = length (neighbors st1)"
    using st2(2) key1 by (simp add: length_update)
  have single: "length (neighbors st2) = 1" if "pre = []"
  proof -
    from that run have "loop_body loads init_state ?D1 = Continue st1"
      by (auto split: step.splits)
    then have "store init_state key rec1 n1 = Continue st1"
      using first by (simp add: loop_body_valid)
    then have "neighbors st1 = AList.update key rec1 (neighbors init_state)"
      by (auto simp: store_def Let_def split: if_splits)
    then show ?thesis using len by (simp add: init_state_def)
  qed
  obtain pos speed t where rec2:
    "map_of m2 ''pos'' = Some pos" "map_of m2 ''speed'' = Some speed" "map_of m2 ''ts'' = Some t"
    "rec2 = PDict [(''pos'', pos), (''speed'', speed), (''last_ts'', t)]"
    using second(2) by (auto elim: validate_SomeD)
  have "map_of (neighbors st2) key = Some rec2"
    using st2(2) by (simp add: AList.update_conv')
  with rec2 end2 one len single show ?thesis by blast
qed

theorem C4_same_id_witness:
  "main_loop ex_loads init_state [Datagram [0x41] 0, Datagram [0x42] 500] =
     (Waiting \<lparr>neighbors = [(''veh_1'', entry (PList [PInt 1, PInt 1]))], first_ts = Some 0\<rparr>, []) \<and>
   entries_for ''veh_1'' [(''veh_1'', entry (PList [PInt 1, PInt 1]))] = 1 \<and>
   length [(''veh_1'', entry (PList [PInt 1, PInt 1]))] = 1 \<and>
   map_of [(''veh_1'', entry (PList [PInt 1, PInt 1]))] ''veh_1'' =
     Some (PDict [(''pos'', PList [PInt 1, PInt 1]), (''speed'', PInt 1), (''last_ts'', PInt 1)])"
proof -
  let ?m2 = "[(''id'', PStr ''veh_1''), (''pos'', PList [PInt 1, PInt 1]),
              (''speed'', PInt 1), (''ts'', PInt 1)]"
  let ?S = "\<lparr>neighbors = [(''veh_1'', entry (PList [PInt 1, PInt 1]))], first_ts = Some 0\<rparr>"
  have v1: "validate (beacon ''veh_1'' (PList [PInt 3, PInt 4])) =
              Some (''veh_1'', entry (PList [PInt 3, PInt 4]))"
    by (simp add: validate_beacon)
  have d2: "decode ex_loads [0x42] = Inr (PDict ?m2)"
    using ex_decode(2) by (simp add: beacon_def)
  have v2: "validate (PDict ?m2) = Some (''veh_1'', entry (PList [PInt 1, PInt 1]))"
    using validate_beacon[of "PList [PInt 1, PInt 1]" "PInt 1" "PInt 1" "''veh_1''"]
    by (simp add: beacon_def)
  have run1: "main_loop ex_loads init_state ([] @ [Datagram [0x41] 0]) =
      (Waiting \<lparr>neighbors = [(''veh_1'', entry (PList [PInt 3, PInt 4]))], first_ts = Some 0\<rparr>, [])"
    by (simp add: loop_body_def ex_decode validate_beacon store_def init_state_def
        COLLECT_WINDOW_MS_def)
  have run2: "main_loop ex_loads init_state [Datagram [0x41] 0, Datagram [0x42] 500] = (Waiting ?S, [])"
    by (simp add: loop_body_def ex_decode validate_beacon store_def init_state_def
        COLLECT_WINDOW_MS_def)
  from C4_same_id_overwrites [OF ex_decode(1) v1 d2 v2 run1, of 500]
  obtain st2 where st2:
    "main_loop ex_loads init_state ([] @ [Datagram [0x41] 0, Datagram [0x42] 500]) = (Waiting st2, []) \<or>
     main_loop ex_loads init_state ([] @ [Datagram [0x41] 0, Datagram [0x42] 500]) = (Stopped st2, [])"
    "entries_for ''veh_1'' (neighbors st2) = 1"
    "length (neighbors st2) = 1"
    "\<exists>pos speed t.
        map_of ?m2 ''pos'' = Some pos \<and> map_of ?m2 ''speed'' = Some speed \<and>
        map_of ?m2 ''ts'' = Some t \<and>
        map_of (neighbors st2) ''veh_1'' =
          Some (PDict [(''pos'', pos), (''speed'', speed), (''last_ts'', t)])"
    by auto
  from st2(1) run2 have "st2 = ?S" by simp
  with st2 run2 show ?thesis by simp
qed

text \<open>
  Claim C9: the table holds one entry for each id accepted so far, whether the loop is
  still running or has stopped, and the \<open>count\<close> of the summary is the number of
  distinct ids accepted during the run. A valid beacon sets the entry of its id and
  touches no other: the table grows by one entry when the id is new and keeps its size
  when it is not. No iteration removes a key.
\<close>

theorem C9_count_is_number_of_accepted_ids:
  "(main_loop loads init_state evs = (Waiting st, rest) \<or>
    main_loop loads init_state evs = (Stopped st, rest) \<longrightarrow>
      fst ` set (neighbors st) = accepted_ids loads evs \<and>
      length (neighbors st) = card (accepted_ids loads evs)) \<and>
   (main loads evs end_now = Exit s \<longrightarrow> count s = card (accepted_ids loads evs)) \<and>
   (decode loads data = Inr msg \<and> validate msg = Some (key, rec) \<longrightarrow>
      (\<exists>st'. (loop_body loads st0 (Datagram data now) = Continue st' \<or>
              loop_body loads st0 (Datagram data now) = Break st') \<and>
             map_of (neighbors st') = (map_of (neighbors st0))(key \<mapsto> rec) \<and>
             length (neighbors st') =
               (if key \<in> fst ` set (neighbors st0) then length (neighbors st0)
                else Suc (length (neighbors st0))))) \<and>
   (loop_body loads st0 ev = Continue st1 \<or> loop_body loads st0 ev = Break st1 \<longrightarrow>
      fst ` set (neighbors st0) \<subseteq> fst ` set (neighbors st1))"
proof (intro conjI impI)
  assume run: "main_loop loads init_state evs = (Waiting st, rest) \<or>
               main_loop loads init_state evs = (Stopped st, rest)"
  then obtain r where r: "main_loop loads init_state evs = (r, rest)" "r = Waiting st \<or> r = Stopped st"
    by blast
  show "fst ` set (neighbors st) = accepted_ids loads evs"
    using r by (rule run_keys(1))
  show "length (neighbors st) = card (accepted_ids loads evs)"
    using r by (rule run_count)
next
  assume ex: "main loads evs end_now = Exit s"
  obtain r rest where r: "main_loop loads init_state evs = (r, rest)"
    by (cases "main_loop loads init_state evs")
  with ex obtain st where st: "r = Stopped st" "count s = length (neighbors st)"
    by (cases r) (auto simp: main_def split: sum.splits)
  from r st(1) have "length (neighbors st) = card (accepted_ids loads evs)"
    by (intro run_count) auto
  with st(2) show "count s = card (accepted_ids loads evs)" by simp
next
  assume "decode loads data = Inr msg \<and> validate msg = Some (key, rec)"
  then have "loop_body loads st0 (Datagram data now) = store st0 key rec now"
    by (simp add: loop_body_valid)
  moreover obtain st' where
    "store st0 key rec now = Continue st' \<or> store st0 key rec now = Break st'"
    "neighbors st' = AList.update key rec (neighbors st0)"
    using store_cases by blast
  ultimately show "\<exists>st'. (loop_body loads st0 (Datagram data now) = Continue st' \<or>
              loop_body loads st0 (Datagram data now) = Break st') \<and>
             map_of (neighbors st') = (map_of (neighbors st0))(key \<mapsto> rec) \<and>
             length (neighbors st') =
               (if key \<in> fst ` set (neighbors st0) then length (neighbors st0)
                else Suc (length (neighbors st0)))"
    by (force simp: AList.update_conv' length_update)
next
  assume "loop_body loads st0 ev = Continue st1 \<or> loop_body loads st0 ev = Break st1"
  from step_keys(1)[OF this] show "fst ` set (neighbors st0) \<subseteq> fst ` set (neighbors st1)"
    by blast
qed

lemma entry_dist_entry: "entry_dist (entry pos) = euclidean_dist_to_origin pos"
  by (simp add: entry_dist_def entry_def)

lemma small_int_to_float: "\<bar>n\<bar> \<le> 1000 \<Longrightarrow> int_to_float n = Inr (Fin (real_of_int n))"
proof -
  assume "\<bar>n\<bar> \<le> 1000"
  then have "\<bar>real_of_int n\<bar> \<le> 1000" by linarith
  moreover have "(1000::real) < DBL_OVF" by (simp add: DBL_OVF_def)
  ultimately show ?thesis by (simp add: int_to_float_def)
qed

lemma ex_dist:
  "euclidean_dist_to_origin (PList [PInt 3, PInt 4]) = Inr (Fin 5)"
  "euclidean_dist_to_origin (PList [PInt 1, PInt 1]) = Inr (Fin (sqrt 2))"
  "euclidean_dist_to_origin (PList [PInt (- 5), PInt 0]) = Inr (Fin 5)"
  by (simp_all add: euclidean_dist_to_origin_def small_int_to_float)

lemma sqrt2_less_5: "sqrt 2 < 5" "\<not> 5 < sqrt 2"
proof -
  show "sqrt 2 < 5" by (rule real_less_lsqrt) simp_all
  then show "\<not> 5 < sqrt 2" by simp
qed

lemma ex_main:
  "main ex_loads ex_run 2000 =
     Exit \<lparr>topic = ''/v2x/neighbor_summary'', count = 2,
           nearest = Some (''veh_1'', Fin (sqrt 2)), ts = 2000\<rparr>"
  by (simp add: main_def ex_main_loop nearest_neighbor_def entry_dist_entry ex_dist sqrt2_less_5)

theorem C9_count_witness:
  "main ex_loads ex_run 2000 =
     Exit \<lparr>topic = ''/v2x/neighbor_summary'', count = 2,
           nearest = Some (''veh_1'', Fin (sqrt 2)), ts = 2000\<rparr> \<and>
   card (accepted_ids ex_loads ex_run) = 2 \<and>
   accepted_ids ex_loads ex_run = {''veh_1'', ''veh_2''} \<and>
   (\<exists>st'. loop_body ex_loads init_state (Datagram [0x41] 0) = Continue st' \<and>
          map_of (neighbors st') = (map_of (neighbors init_state))
            (''veh_1'' \<mapsto> entry (PList [PInt 3, PInt 4])) \<and>
          length (neighbors st') = 1)"
proof -
  let ?st = "\<lparr>neighbors = [(''veh_1'', entry (PList [PInt 1, PInt 1])),
                             (''veh_2'', entry (PList [PInt (- 5), PInt 0]))],
                first_ts = Some 0\<rparr>"
  let ?s = "\<lparr>topic = ''/v2x/neighbor_summary'', count = 2,
             nearest = Some (''veh_1'', Fin (sqrt 2)), ts = 2000\<rparr>"
  let ?st1 = "\<lparr>neighbors = [(''veh_1'', entry (PList [PInt 3, PInt 4]))], first_ts = Some 0\<rparr>"
  have v: "validate (beacon ''veh_1'' (PList [PInt 3, PInt 4])) =
             Some (''veh_1'', entry (PList [PInt 3, PInt 4]))"
    by (simp add: validate_beacon)
  have step: "loop_body ex_loads init_state (Datagram [0x41] 0) = Continue ?st1"
    by (simp add: loop_body_def ex_decode validate_beacon store_def init_state_def
        COLLECT_WINDOW_MS_def)
  note C9 = C9_count_is_number_of_accepted_ids
    [of ex_loads ex_run ?st "[Datagram [0x41] 1300]" 2000 ?s "[0x41]"
        "beacon ''veh_1'' (PList [PInt 3, PInt 4])" "''veh_1''" "entry (PList [PInt 3, PInt 4])"
        init_state 0 "Datagram [0x41] 0" ?st1]
  show ?thesis
    using C9 ex_main_loop ex_main ex_decode(1) v step
    by (auto simp: init_state_def)
qed

section \<open>Properties of the validation\<close>


text \<open>A float timestamp is refused, whatever its value: nothing is truncated.\<close>

lemma validate_float_ts:
  "map_of m ''ts'' = Some (PFloat f) \<Longrightarrow> validate (PDict m) = None"
  by (auto simp: validate_def split: option.splits pyval.splits)

text \<open>
  Claim C6 (a message is accepted if and only if its \<open>pos\<close> elements and its
  \<open>speed\<close> are numbers and its \<open>ts\<close> is an integer) fails on JSON booleans: the
  checks hold of \<^verbatim>\<open>True\<close> and \<^verbatim>\<open>False\<close>. The beacon
  \<^verbatim>\<open>{"id": "A", "pos": [true, false], "speed": 1, "ts": 1}\<close> is accepted and stored,
  and so is one whose \<open>speed\<close> and \<open>ts\<close> are booleans. The comment at line 47 of the
  source says of the same check that it admits no booleans.
\<close>

theorem C6_booleans_pass_validation:
  "validate (beacon ''A'' (PList [PBool True, PBool False])) =
     Some (''A'', entry (PList [PBool True, PBool False])) \<and>
   store init_state ''A'' (entry (PList [PBool True, PBool False])) now =
     Continue \<lparr>neighbors = [(''A'', entry (PList [PBool True, PBool False]))],
               first_ts = Some now\<rparr> \<and>
   validate (PDict [(''id'', PStr ''A''), (''pos'', PList [PInt 0, PInt 0]),
                    (''speed'', PBool True), (''ts'', PBool False)]) =
     Some (''A'', PDict [(''pos'', PList [PInt 0, PInt 0]), (''speed'', PBool True),
                         (''last_ts'', PBool False)])"
  by (simp add: validate_beacon store_def init_state_def COLLECT_WINDOW_MS_def)
    (simp add: validate_def required_keys_def)





subsection \<open>The distance of finite coordinates\<close>








section \<open>Properties of the selector\<close>

lemma nearest_neighbor_empty: "nearest_neighbor [] = Inr None"
  by (simp add: nearest_neighbor_def)

subsection \<open>Entries that are skipped\<close>

lemma bad_pos_caught: "bad_pos data \<Longrightarrow> \<exists>e. entry_dist data = Inl e \<and> caught e"
  by (cases data)
    (auto simp: bad_pos_def entry_dist_def euclidean_dist_to_origin_def
      split: option.splits sum.splits)

lemma nearest_loop_skip:
  "entry_dist data = Inl e \<Longrightarrow> caught e \<Longrightarrow>
   nearest_loop (xs @ (k, data) # ys) nearest_id min_dist = nearest_loop (xs @ ys) nearest_id min_dist"
proof (induction xs arbitrary: nearest_id min_dist)
  case Nil
  then show ?case by simp
next
  case (Cons x xs)
  obtain k' data' where x: "x = (k', data')" by (cases x)
  show ?case
    using Cons.IH[OF Cons.prems] unfolding x
    by (simp split: sum.splits)
qed

text \<open>
  Claim C8: an entry whose stored position fails the re-validation of the selector, or
  that has no position, makes the distance computation raise one of the exceptions the
  loop catches; the selector's result on the table (its value, or the exception another
  entry makes it raise) is its result on the table without that entry.
\<close>

theorem C8_bad_entry_is_skipped:
  assumes "bad_pos data"
  shows "(\<exists>e. entry_dist data = Inl e \<and> caught e) \<and>
         nearest_neighbor (xs @ (k, data) # ys) = nearest_neighbor (xs @ ys)"
proof -
  from assms obtain e where e: "entry_dist data = Inl e" "caught e"
    using bad_pos_caught by blast
  have "nearest_loop (xs @ (k, data) # ys) None PosInf = nearest_loop (xs @ ys) None PosInf"
    using e by (rule nearest_loop_skip)
  then have "nearest_neighbor (xs @ (k, data) # ys) = nearest_neighbor (xs @ ys)"
    by (cases "xs @ ys = []") (simp_all add: nearest_neighbor_def)
  with e show ?thesis by blast
qed

lemma ex_nearest:
  "nearest_neighbor [(''A'', entry (PList [PInt 3, PInt 4])), (''B'', entry (PList [PInt 1, PInt 1])),
                     (''C'', entry (PList [PInt (- 5), PInt 0]))] = Inr (Some (''B'', Fin (sqrt 2)))"
  by (simp add: nearest_neighbor_def entry_dist_entry ex_dist sqrt2_less_5)

theorem C8_bad_entry_witness:
  "bad_pos (PDict [(''speed'', PInt 1), (''last_ts'', PInt 1)]) \<and>
   bad_pos (entry (PList [PInt 1, PStr ''x''])) \<and>
   bad_pos (entry (PList [PInt 1, PInt 2, PInt 3])) \<and>
   entry_dist (entry (PList [PInt 1, PStr ''x''])) = Inl ValueError \<and>
   nearest_neighbor [(''A'', entry (PList [PInt 3, PInt 4])), (''X'', entry (PList [PInt 1, PStr ''x''])),
                     (''B'', entry (PList [PInt 1, PInt 1])), (''C'', entry (PList [PInt (- 5), PInt 0]))] =
     Inr (Some (''B'', Fin (sqrt 2))) \<and>
   nearest_neighbor [(''X'', entry (PList [PInt 1, PStr ''x'']))] = Inr None"
proof -
  have b: "bad_pos (entry (PList [PInt 1, PStr ''x'']))"
    by (simp add: bad_pos_def entry_def)
  have "bad_pos (PDict [(''speed'', PInt 1), (''last_ts'', PInt 1)])"
    "bad_pos (entry (PList [PInt 1, PInt 2, PInt 3]))"
    "entry_dist (entry (PList [PInt 1, PStr ''x''])) = Inl ValueError"
    by (simp_all add: bad_pos_def entry_def entry_dist_def euclidean_dist_to_origin_def)
  then show ?thesis
    using b ex_nearest
      C8_bad_entry_is_skipped [OF b, of "[(''A'', entry (PList [PInt 3, PInt 4]))]" "''X''"
        "[(''B'', entry (PList [PInt 1, PInt 1])), (''C'', entry (PList [PInt (- 5), PInt 0]))]"]
      C8_bad_entry_is_skipped [OF b, of "[]" "''X''" "[]"]
    by (simp add: nearest_neighbor_empty)
qed

subsection \<open>The comparison of floats\<close>

lemma float_lt_not_NaN: "float_lt a b \<Longrightarrow> a \<noteq> NaN \<and> b \<noteq> NaN"
  by (cases a; cases b) simp_all

lemma float_lt_irrefl: "\<not> float_lt a a"
  by (cases a) simp_all

lemma float_lt_trans: "float_lt a b \<Longrightarrow> float_lt b c \<Longrightarrow> float_lt a c"
  by (cases a; cases b; cases c) simp_all

lemma float_lt_total: "a \<noteq> NaN \<Longrightarrow> b \<noteq> NaN \<Longrightarrow> float_lt a b \<or> a = b \<or> float_lt b a"
  by (cases a; cases b) auto

lemma float_lt_PosInf: "float_lt d PosInf \<longleftrightarrow> (\<exists>r. d = Fin r) \<or> d = NegInf"
  by (cases d) simp_all

subsection \<open>What the loop of the selector computes\<close>

text \<open>Entries that are not below the current minimum leave the two variables as they
  are.\<close>

lemma nearest_loop_stay:
  assumes "\<forall>p \<in> set tbl. survives (snd p)"
    and "\<forall>p \<in> set tbl. \<forall>d'. entry_dist (snd p) = Inr d' \<longrightarrow> \<not> float_lt d' min_dist"
  shows "nearest_loop tbl nearest_id min_dist = Inr (nearest_id, min_dist)"
  using assms
proof (induction tbl)
  case Nil
  then show ?case by simp
next
  case (Cons p tbl)
  obtain k v where p: "p = (k, v)" by (cases p)
  from Cons.prems have rest: "nearest_loop tbl nearest_id min_dist = Inr (nearest_id, min_dist)"
    by (intro Cons.IH) auto
  show ?case
  proof (cases "entry_dist v")
    case (Inl e)
    with Cons.prems(1) p have "caught e" by (simp add: survives_def)
    with Inl rest p show ?thesis by simp
  next
    case (Inr d')
    with Cons.prems(2) p have "\<not> float_lt d' min_dist" by simp
    with Inr rest p show ?thesis by simp
  qed
qed

text \<open>
  The loop returns the first entry of least distance, provided that distance is below
  the starting value of \<open>min_dist\<close> and no entry raises an exception that the loop
  does not catch.
\<close>

lemma nearest_loop_first_minimum:
  assumes "\<forall>p \<in> set tbl. survives (snd p)"
    and "i < length tbl" and "entry_dist (snd (tbl ! i)) = Inr d" and "float_lt d min_dist"
    and "\<forall>p \<in> set tbl. \<forall>d'. entry_dist (snd p) = Inr d' \<longrightarrow> \<not> float_lt d' d"
    and "\<forall>j < i. entry_dist (snd (tbl ! j)) \<noteq> Inr d"
  shows "nearest_loop tbl nearest_id min_dist = Inr (Some (fst (tbl ! i)), d)"
  using assms
proof (induction tbl arbitrary: i nearest_id min_dist)
  case Nil
  then show ?case by simp
next
  case (Cons p tbl)
  obtain k v where p: "p = (k, v)" by (cases p)
  have surv: "\<forall>q \<in> set tbl. survives (snd q)"
    and least: "\<forall>q \<in> set tbl. \<forall>d'. entry_dist (snd q) = Inr d' \<longrightarrow> \<not> float_lt d' d"
    using Cons.prems(1,5) by simp_all
  show ?case
  proof (cases i)
    case 0
    with Cons.prems(3) p have "entry_dist v = Inr d" by simp
    moreover have "nearest_loop tbl (Some k) d = Inr (Some k, d)"
      using surv least by (rule nearest_loop_stay)
    ultimately show ?thesis using Cons.prems(4) p 0 by simp
  next
    case (Suc i')
    have i': "i' < length tbl" "entry_dist (snd (tbl ! i')) = Inr d"
      using Cons.prems(2,3) Suc by simp_all
    have first: "\<forall>j < i'. entry_dist (snd (tbl ! j)) \<noteq> Inr d"
      using Cons.prems(6) Suc by auto
    have head: "entry_dist v \<noteq> Inr d"
      using Cons.prems(6) Suc p by auto
    have IH: "float_lt d m \<Longrightarrow> nearest_loop tbl n m = Inr (Some (fst (tbl ! i')), d)" for n m
      using Cons.IH[OF surv i' _ least first] by blast
    show ?thesis
    proof (cases "entry_dist v")
      case (Inl e)
      with Cons.prems(1) p have "caught e" by (simp add: survives_def)
      with Inl p Suc IH[OF Cons.prems(4)] show ?thesis by simp
    next
      case (Inr d0)
      show ?thesis
      proof (cases "float_lt d0 min_dist")
        case True
        have "\<not> float_lt d0 d" using Cons.prems(5) p Inr by simp
        moreover have "d0 \<noteq> d" using head Inr by simp
        moreover have "d0 \<noteq> NaN" "d \<noteq> NaN"
          using True Cons.prems(4) float_lt_not_NaN by blast+
        ultimately have "float_lt d d0" using float_lt_total by blast
        from IH[OF this] Inr True p Suc show ?thesis by simp
      next
        case False
        with IH[OF Cons.prems(4)] Inr p Suc show ?thesis by simp
      qed
    qed
  qed
qed

text \<open>
  So the selector is right whenever the least distance is finite and no coordinate
  overflows: it returns the first entry, in the order of the table, whose distance is the
  least one, with that distance.
\<close>

lemma nearest_neighbor_first_minimum:
  assumes "\<forall>p \<in> set tbl. survives (snd p)"
    and "i < length tbl" and "entry_dist (snd (tbl ! i)) = Inr d" and "float_lt d PosInf"
    and "\<forall>p \<in> set tbl. \<forall>d'. entry_dist (snd p) = Inr d' \<longrightarrow> \<not> float_lt d' d"
    and "\<forall>j < i. entry_dist (snd (tbl ! j)) \<noteq> Inr d"
  shows "nearest_neighbor tbl = Inr (Some (fst (tbl ! i), d))"
proof -
  have "nearest_loop tbl None PosInf = Inr (Some (fst (tbl ! i)), d)"
    using assms by (rule nearest_loop_first_minimum)
  moreover have "tbl \<noteq> []" using assms(2) by auto
  ultimately show ?thesis by (simp add: nearest_neighbor_def)
qed

text \<open>Once an id has been chosen, one stays chosen; and none is chosen exactly when
  no distance is below the starting value.\<close>

lemma nearest_loop_Some:
  "nearest_loop tbl (Some k) min_dist = Inr (n, m) \<Longrightarrow> n \<noteq> None"
proof (induction tbl arbitrary: k min_dist)
  case Nil
  then show ?case by auto
next
  case (Cons p tbl)
  obtain k' v where p: "p = (k', v)" by (cases p)
  from Cons.prems Cons.IH show ?case
    unfolding p by (auto split: sum.splits if_splits)
qed

lemma nearest_loop_None:
  "nearest_loop tbl None min_dist = Inr (n, m) \<Longrightarrow>
   n = None \<longleftrightarrow> (\<forall>p \<in> set tbl. \<forall>d. entry_dist (snd p) = Inr d \<longrightarrow> \<not> float_lt d min_dist)"
proof (induction tbl)
  case Nil
  then show ?case by auto
next
  case (Cons p tbl)
  obtain k v where p: "p = (k, v)" by (cases p)
  show ?case
  proof (cases "entry_dist v")
    case (Inl e)
    with Cons.prems p have "nearest_loop tbl None min_dist = Inr (n, m)"
      by (simp split: if_splits)
    from Cons.IH[OF this] Inl p show ?thesis by simp
  next
    case (Inr d)
    show ?thesis
    proof (cases "float_lt d min_dist")
      case True
      with Cons.prems p Inr have "nearest_loop tbl (Some k) d = Inr (n, m)" by simp
      then have "n \<noteq> None" by (rule nearest_loop_Some)
      with True Inr p show ?thesis by auto
    next
      case False
      with Cons.prems p Inr have "nearest_loop tbl None min_dist = Inr (n, m)" by simp
      from Cons.IH[OF this] False Inr p show ?thesis by simp
    qed
  qed
qed

text \<open>
  When the selector returns, its result is \<^verbatim>\<open>None\<close> exactly when no entry has a
  distance below infinity: the table is empty, or every entry is skipped or has the
  distance infinity or NaN.
\<close>

lemma nearest_neighbor_None_iff:
  assumes "nearest_neighbor tbl = Inr r"
  shows "r = None \<longleftrightarrow>
         (\<forall>p \<in> set tbl. \<forall>d. entry_dist (snd p) = Inr d \<longrightarrow> \<not> float_lt d PosInf)"
proof (cases "tbl = []")
  case True
  with assms show ?thesis by (simp add: nearest_neighbor_def)
next
  case False
  with assms obtain n m where nm: "nearest_loop tbl None PosInf = Inr (n, m)"
    by (auto simp: nearest_neighbor_def split: sum.splits)
  with assms False have "r = None \<longleftrightarrow> n = None"
    by (auto simp: nearest_neighbor_def split: option.splits)
  with nearest_loop_None[OF nm] show ?thesis by simp
qed

subsection \<open>Where the selector goes wrong\<close>

lemma DBL_OVF_bounds: "9 * 2 ^ 1020 < DBL_OVF" "DBL_OVF \<le> 9 * 2 ^ 1020 + 9 * 2 ^ 1020"
  "DBL_OVF \<le> 10 ^ 400"
  by (simp_all add: DBL_OVF_def)

text \<open>
  Claim C2 (a table with a valid two-element numeric position makes the selector return
  the pair of least distance) fails on an integer coordinate of 201 digits. The beacon
  \<^verbatim>\<open>{"id": "A", "pos": [10**200, 0], "speed": 1, "ts": 1}\<close> passes the validation,
  since its coordinates are integers. In the selector the squares and their sum are exact
  integers, and \<^verbatim>\<open>math.sqrt\<close> raises OverflowError when it converts \<open>10^400\<close> to a
  float. The loop of the selector catches ValueError, KeyError and TypeError only, so the
  selector returns nothing: the exception reaches \<^verbatim>\<open>main\<close>.
\<close>

theorem C2_large_coordinate_aborts_selector:
  "validate (beacon ''A'' (PList [PInt (10 ^ 200), PInt 0])) =
     Some (''A'', entry (PList [PInt (10 ^ 200), PInt 0])) \<and>
   euclidean_dist_to_origin (PList [PInt (10 ^ 200), PInt 0]) = Inl OverflowError \<and>
   nearest_neighbor [(''A'', entry (PList [PInt (10 ^ 200), PInt 0]))] = Inl OverflowError \<and>
   nearest_neighbor [(''B'', entry (PList [PInt 1, PInt 1])),
                     (''A'', entry (PList [PInt (10 ^ 200), PInt 0]))] = Inl OverflowError"
proof -
  have "(10 ^ 200 * 10 ^ 200 :: int) = 10 ^ 400" by simp
  then have d: "euclidean_dist_to_origin (PList [PInt (10 ^ 200), PInt 0]) = Inl OverflowError"
    using DBL_OVF_bounds(3)
    by (simp add: euclidean_dist_to_origin_def int_to_float_def)
  then show ?thesis
    by (simp add: validate_beacon nearest_neighbor_def entry_dist_entry ex_dist)
qed

text \<open>
  Claim C5 (the result is \<^verbatim>\<open>None\<close> only for a table that is empty or whose every
  position fails the distance computation) fails on a table whose one position is the
  pair of finite floats \<open>x = 3 * 2^510\<close> (about \<open>1.0e154\<close>). Each square is
  finite, their sum overflows to infinity, the distance computation succeeds with the
  value infinity, and \<^verbatim>\<open>dist < min_dist\<close> is false against the starting value
  \<^verbatim>\<open>float('inf')\<close>: the result is \<^verbatim>\<open>None\<close>.
\<close>

theorem C5_computed_infinity_gives_none:
  "validate (beacon ''A'' (PList [PFloat (Fin (3 * 2 ^ 510)), PFloat (Fin (3 * 2 ^ 510))])) =
     Some (''A'', entry (PList [PFloat (Fin (3 * 2 ^ 510)), PFloat (Fin (3 * 2 ^ 510))])) \<and>
   entry_dist (entry (PList [PFloat (Fin (3 * 2 ^ 510)), PFloat (Fin (3 * 2 ^ 510))])) = Inr PosInf \<and>
   nearest_neighbor [(''A'', entry (PList [PFloat (Fin (3 * 2 ^ 510)), PFloat (Fin (3 * 2 ^ 510))]))] =
     Inr None"
proof -
  have "(3 * 2 ^ 510 * (3 * 2 ^ 510) :: real) = 9 * 2 ^ 1020" by simp
  then have "euclidean_dist_to_origin (PList [PFloat (Fin (3 * 2 ^ 510)), PFloat (Fin (3 * 2 ^ 510))]) =
      Inr PosInf"
    using DBL_OVF_bounds(1,2)
    by (simp add: euclidean_dist_to_origin_def)
  then show ?thesis
    by (simp add: validate_beacon nearest_neighbor_def entry_dist_entry)
qed

text \<open>
  Claim C7 (among entries of equal, least distance the first is returned) fails when the
  least distance is computed as infinity. Two vehicles at the same position, the pair of
  finite floats \<open>x = 3 * 2^510\<close>, have the same distance; it overflows to infinity
  in the sum of squares for both, it is the least in the table, and no id is returned.
\<close>

theorem C7_tie_at_infinity_gives_none:
  "entry_dist (entry (PList [PFloat (Fin (3 * 2 ^ 510)), PFloat (Fin (3 * 2 ^ 510))])) = Inr PosInf \<and>
   nearest_neighbor
     [(''A'', entry (PList [PFloat (Fin (3 * 2 ^ 510)), PFloat (Fin (3 * 2 ^ 510))])),
      (''B'', entry (PList [PFloat (Fin (3 * 2 ^ 510)), PFloat (Fin (3 * 2 ^ 510))]))] = Inr None"
proof -
  have "(3 * 2 ^ 510 * (3 * 2 ^ 510) :: real) = 9 * 2 ^ 1020" by simp
  then have "euclidean_dist_to_origin (PList [PFloat (Fin (3 * 2 ^ 510)), PFloat (Fin (3 * 2 ^ 510))]) =
      Inr PosInf"
    using DBL_OVF_bounds(1,2)
    by (simp add: euclidean_dist_to_origin_def)
  then show ?thesis
    by (simp add: nearest_neighbor_def entry_dist_entry)
qed

end
